theory Spec2Isabelle
  imports Main "HOL-Library.Product_Lexorder"
begin

section \<open>Python string primitives used by staticfuzz.py\<close>

text \<open>
  Submitted text is a Python 2 \<^verbatim>\<open>unicode\<close> string. A character is modelled as a
  \<^typ>\<open>char\<close>, read as a code point below 256. \<open>isspace\<close> is the set of such code
  points that \<^verbatim>\<open>unicode.strip()\<close> removes, \<open>re_space\<close> is the class \<^verbatim>\<open>\s\<close> of the
  \<^verbatim>\<open>re\<close> module (compiled without the UNICODE flag), and \<open>lower_char\<close> is
  \<^verbatim>\<open>unicode.lower()\<close> on one code point.
\<close>

definition isspace :: "char \<Rightarrow> bool" where
  "isspace c = (of_char c \<in> {9, 10, 11, 12, 13, 28, 29, 30, 31, 32, 133, 160 :: nat})"

definition re_space :: "char \<Rightarrow> bool" where
  "re_space c = (of_char c \<in> {9, 10, 11, 12, 13, 32 :: nat})"

definition lower_char :: "char \<Rightarrow> char" where
  "lower_char c =
     (let n = (of_char c :: nat)
      in if (65 \<le> n \<and> n \<le> 90) \<or> (192 \<le> n \<and> n \<le> 222 \<and> n \<noteq> 215)
         then char_of (n + 32) else c)"

definition lower :: "string \<Rightarrow> string" where
  "lower s = map lower_char s"

definition strip :: "string \<Rightarrow> string" where
  "strip s = rev (dropWhile isspace (rev (dropWhile isspace s)))"

definition startswith :: "string \<Rightarrow> string \<Rightarrow> bool" where
  "startswith s p = (take (length p) s = p)"

definition endswith :: "string \<Rightarrow> string \<Rightarrow> bool" where
  "endswith s p = (length p \<le> length s \<and> drop (length s - length p) s = p)"

text \<open>
  \<^verbatim>\<open>text.replace(pattern, '')\<close>: every non-overlapping occurrence of the pattern is
  removed, scanning from the left. (With an empty pattern Python inserts the
  replacement between the characters; the replacement being empty, the text is unchanged.)
\<close>

function replace_empty :: "string \<Rightarrow> string \<Rightarrow> string" where
  "replace_empty pattern [] = []"
| "replace_empty pattern (c # cs) =
     (if pattern \<noteq> [] \<and> startswith (c # cs) pattern
      then replace_empty pattern (drop (length pattern) (c # cs))
      else c # replace_empty pattern cs)"
  by pat_completeness auto
termination
  by (relation "measure (\<lambda>(p, s). length s)") auto

text \<open>\<^verbatim>\<open>text.split(' ')\<close>: split at every single separator, keeping empty pieces.\<close>

fun split :: "char \<Rightarrow> string \<Rightarrow> string list" where
  "split d [] = [[]]"
| "split d (c # cs) =
     (if c = d then [] # split d cs
      else (case split d cs of [] \<Rightarrow> [[c]] | w # ws \<Rightarrow> (c # w) # ws))"

text \<open>\<^verbatim>\<open>' '.join(args)\<close>\<close>

fun join :: "string \<Rightarrow> string list \<Rightarrow> string" where
  "join sep [] = []"
| "join sep [a] = a"
| "join sep (a # b # bs) = a @ sep @ join sep (b # bs)"

text \<open>
  \<^verbatim>\<open>re.match(r'%s\s*' % pattern, text)\<close> for a pattern without regular-expression
  operators: the literal pattern at the start of the text, then the longest (possibly
  empty) run of \<^verbatim>\<open>\s\<close>. The result is the matched text, or \<open>None\<close>.
\<close>

definition re_match :: "string \<Rightarrow> string \<Rightarrow> string option" where
  "re_match pattern text =
     (if startswith text pattern
      then Some (pattern @ takeWhile re_space (drop (length pattern) text))
      else None)"

section \<open>Data model\<close>

datatype py_error = TypeError | IndexError | KeyError | AttributeError | ExternalFailure

text \<open>What a view returns: a redirect to an endpoint, or a message with a status code.\<close>

datatype response = Redirect string | Status string nat

text \<open>The keys of \<^verbatim>\<open>app.config\<close> that the module reads (config.py is not part of the sources).\<close>

record config =
  WHISPER_SECRET :: string
  DEITY_GREET :: string
  DEITY_GOODBYE :: string
  LOGIN_FAIL :: string
  ERROR_DANBOORU :: string
  ERROR_TOO_LONG :: string
  ERROR_UNORIGINAL :: string
  MAX_CHARACTERS :: int

text \<open>\<^verbatim>\<open>flask.session\<close>: the \<^verbatim>\<open>'deity'\<close> key (absent is \<open>None\<close>) and the flashed messages.\<close>

record session =
  deity :: "bool option"
  flashes :: "string list"

text \<open>A stored \<^verbatim>\<open>Memory\<close> entity: its key id (\<open>mid\<close>) and its properties \<^verbatim>\<open>timestamp\<close>,
  \<^verbatim>\<open>text\<close> (\<open>mtext\<close>) and \<^verbatim>\<open>base64_image\<close>.\<close>

record Memory =
  mid :: int
  timestamp :: nat
  mtext :: string
  base64_image :: "string option"

record state =
  memories :: "Memory list"
  sess :: session

text \<open>
  The outside world of one request: the posts the Danbooru endpoint answers for a tag
  string (\<open>None\<close> when the call or the decoding of its answer fails), the index drawn by
  \<^verbatim>\<open>random.choice\<close>, the outcome of the HEAD request of \<open>uri_valid_image\<close>, the
  thumbnail made by \<^verbatim>\<open>glitch.glitch_from_url\<close> (glitch.py is not part of the sources;
  \<open>None\<close> when it fails), and the id and the time the datastore gives to a new entity.
  A post is the JSON object of one search result, as its list of keys and values.
  A failure of the outside world is the exception \<open>ExternalFailure\<close>.
\<close>

datatype head_result = HeadStatus nat | HeadUnreachable | HeadFailure

type_synonym post = "(string \<times> string) list"

record env =
  fetch_posts :: "string \<Rightarrow> post list option"
  random_draw :: nat
  head_request :: "string \<Rightarrow> head_result"
  glitch_from_url :: "string \<Rightarrow> string option"
  new_id :: int
  now :: nat

section \<open>Slash commands\<close>

text \<open>
  \<^verbatim>\<open>SlashCommandResponse(create_memory, value)\<close>. Every callback builds it in one of two
  shapes: \<^verbatim>\<open>(True, text)\<close>, here \<open>CreateMemory text\<close>, and \<^verbatim>\<open>(False, response)\<close>, here
  \<open>Serve response\<close>.
\<close>

datatype SlashCommandResponse = CreateMemory string | Serve response

datatype SlashCommand = SlashLogin | SlashLogout | SlashDanbooru

fun NAME :: "SlashCommand \<Rightarrow> string" where
  "NAME SlashLogin = ''login''"
| "NAME SlashLogout = ''logout''"
| "NAME SlashDanbooru = ''danbooru''"

text \<open>
  \<^verbatim>\<open>SlashLogin.callback(secret_attempt)\<close>: exactly one positional argument; any other
  number of arguments is Python's TypeError at the call.
\<close>

fun SlashLogin_callback ::
  "config \<Rightarrow> string list \<Rightarrow> session \<Rightarrow> (py_error + SlashCommandResponse) \<times> session" where
  "SlashLogin_callback cfg [secret_attempt] s =
     (if secret_attempt = WHISPER_SECRET cfg
      then (Inr (Serve (Redirect ''show_memories'')),
            s\<lparr>deity := Some True, flashes := flashes s @ [DEITY_GREET cfg]\<rparr>)
      else (Inr (Serve (Status (LOGIN_FAIL cfg) 401)), s))"
| "SlashLogin_callback cfg args s = (Inl TypeError, s)"

text \<open>\<^verbatim>\<open>SlashLogout.callback()\<close>: no argument at all.\<close>

fun SlashLogout_callback ::
  "config \<Rightarrow> string list \<Rightarrow> session \<Rightarrow> (py_error + SlashCommandResponse) \<times> session" where
  "SlashLogout_callback cfg [] s =
     (Inr (Serve (Redirect ''show_memories'')),
      s\<lparr>deity := None, flashes := flashes s @ [DEITY_GOODBYE cfg]\<rparr>)"
| "SlashLogout_callback cfg args s = (Inl TypeError, s)"

text \<open>
  \<^verbatim>\<open>random.choice(seq)\<close> is \<^verbatim>\<open>seq[int(random() * len(seq))]\<close>: IndexError on the empty
  sequence, otherwise the element at the drawn index, which lies below the length. The
  draw of the environment is reduced into that range.
\<close>

definition random_choice :: "nat \<Rightarrow> 'a list \<Rightarrow> py_error + 'a" where
  "random_choice draw xs =
     (if xs = [] then Inl IndexError else Inr (xs ! (draw mod length xs)))"

text \<open>
  \<^verbatim>\<open>SlashDanbooru.callback(*args)\<close>. The three lines that quote the tags, build the
  endpoint and read the JSON answer are the environment's \<open>fetch_posts\<close> at the joined
  tags; they stand outside the \<^verbatim>\<open>try\<close>, so a failure there is raised. Inside the
  \<^verbatim>\<open>try\<close> only IndexError is caught; a chosen post without \<^verbatim>\<open>"file_url"\<close> raises
  KeyError.
\<close>

definition SlashDanbooru_callback ::
  "config \<Rightarrow> env \<Rightarrow> string list \<Rightarrow> py_error + SlashCommandResponse" where
  "SlashDanbooru_callback cfg e args =
     (case fetch_posts e (join '' '' args) of
        None \<Rightarrow> Inl ExternalFailure
      | Some results \<Rightarrow>
          (case random_choice (random_draw e) results of
             Inl err \<Rightarrow>
               (if err = IndexError then Inr (Serve (Status (ERROR_DANBOORU cfg) 400))
                else Inl err)
           | Inr chosen \<Rightarrow>
               (case map_of chosen ''file_url'' of
                  None \<Rightarrow> Inl KeyError
                | Some file_url \<Rightarrow>
                    Inr (CreateMemory (''http://danbooru.donmai.us'' @ file_url)))))"

fun callback ::
  "SlashCommand \<Rightarrow> config \<Rightarrow> env \<Rightarrow> string list \<Rightarrow> session
     \<Rightarrow> (py_error + SlashCommandResponse) \<times> session" where
  "callback SlashLogin cfg e args s = SlashLogin_callback cfg args s"
| "callback SlashLogout cfg e args s = SlashLogout_callback cfg args s"
| "callback SlashDanbooru cfg e args s = (SlashDanbooru_callback cfg e args, s)"

text \<open>
  \<^verbatim>\<open>SlashCommand.attempt(text)\<close>: \<open>None\<close> when the text is not this command, otherwise
  what the callback returns or raises (the \<^verbatim>\<open>except: raise\<close> re-raises everything).
\<close>

definition parse_args :: "string \<Rightarrow> string \<Rightarrow> string list" where
  "parse_args pattern txt =
     filter (\<lambda>arg. arg \<noteq> []) (map strip (split CHR '' '' (replace_empty pattern txt)))"

definition attempt ::
  "SlashCommand \<Rightarrow> config \<Rightarrow> env \<Rightarrow> string \<Rightarrow> session
     \<Rightarrow> (py_error + SlashCommandResponse) option \<times> session" where
  "attempt cmd cfg e txt0 s =
     (let txt = strip (lower txt0);
          pattern = CHR ''/'' # NAME cmd
      in if re_match pattern txt = None then (None, s)
         else (case callback cmd cfg e (parse_args pattern txt) s of
                 (r, s') \<Rightarrow> (Some r, s')))"

section \<open>The datastore\<close>

text \<open>\<^verbatim>\<open>Memory.query(Memory.text == memory_text).count()\<close>\<close>

definition count_text :: "Memory list \<Rightarrow> string \<Rightarrow> nat" where
  "count_text ms t = length (filter (\<lambda>m. mtext m = t) ms)"

text \<open>
  Modelled from the spec: the query engine of the datastore is a library, not part of
  the sources. \<^verbatim>\<open>Memory.query().order(Memory.timestamp)\<close> lists the entities by ascending
  timestamp, entities with equal timestamps by ascending key id; \<^verbatim>\<open>.get(keys_only=True)\<close>
  is the key of the first one, or \<open>None\<close> when there is none.
\<close>

definition query_order_timestamp :: "Memory list \<Rightarrow> Memory list" where
  "query_order_timestamp ms = sort_key (\<lambda>m. (timestamp m, mid m)) ms"

definition get_key :: "Memory list \<Rightarrow> int option" where
  "get_key ms = (case ms of [] \<Rightarrow> None | m # rest \<Rightarrow> Some (mid m))"

text \<open>\<^verbatim>\<open>key.delete()\<close>: the entity stored under the key is gone; no entity, no effect.\<close>

definition delete :: "int \<Rightarrow> Memory list \<Rightarrow> Memory list" where
  "delete k ms = filter (\<lambda>m. mid m \<noteq> k) ms"

text \<open>
  The loop of \<open>new_memory\<close>:
  \<^verbatim>\<open>while Memory.query().count() == 10: Memory.query().order(...).get(keys_only=True).delete()\<close>.
  Calling \<^verbatim>\<open>delete\<close> on the \<open>None\<close> of an empty query would be an AttributeError.
\<close>

function evict :: "Memory list \<Rightarrow> py_error + Memory list" where
  "evict ms =
     (if length ms = 10
      then (case get_key (query_order_timestamp ms) of
              None \<Rightarrow> Inl AttributeError
            | Some k \<Rightarrow> evict (delete k ms))
      else Inr ms)"
  by pat_completeness auto
termination
proof (relation "measure length")
  show "wf (measure (length :: Memory list \<Rightarrow> nat))"
    by simp
next
  fix ms :: "Memory list" and k
  assume "get_key (query_order_timestamp ms) = Some k"
  then obtain m rest where srt: "query_order_timestamp ms = m # rest" and k: "k = mid m"
    by (auto simp: get_key_def split: list.splits)
  have "m \<in> set (query_order_timestamp ms)"
    by (simp add: srt)
  then have "m \<in> set ms"
    by (simp add: query_order_timestamp_def)
  then have "length (filter (\<lambda>x. mid x \<noteq> k) ms) < length ms"
    using k by (intro length_filter_less) auto
  then show "(delete k ms, ms) \<in> measure length"
    by (simp add: delete_def)
qed

declare evict.simps [simp del]

text \<open>
  \<^verbatim>\<open>Memory.create(text)\<close> and \<^verbatim>\<open>put()\<close>. \<open>uri_valid_image\<close> answers False when the
  extension is not whitelisted, when the URI does not start with \<^verbatim>\<open>http\<close>, when the
  HEAD request raises one of the exceptions it catches (\<open>HeadUnreachable\<close>) or when the
  status is not 200; any other exception of the request (\<open>HeadFailure\<close>) is raised.
  \<open>put\<close> stores the entity under the id allocated by the datastore, with the current
  time (\<^verbatim>\<open>auto_now_add\<close>); an entity already stored under that key is replaced.
\<close>

definition image_extension_whitelist :: "string list" where
  "image_extension_whitelist = [''.jpg'', ''.jpeg'', ''.png'', ''.gif'']"

definition uri_valid_image :: "env \<Rightarrow> string \<Rightarrow> py_error + bool" where
  "uri_valid_image e uri =
     (if \<not> list_ex (endswith (lower uri)) image_extension_whitelist then Inr False
      else if \<not> startswith uri ''http'' then Inr False
      else (case head_request e uri of
              HeadStatus code \<Rightarrow> Inr (code = 200)
            | HeadUnreachable \<Rightarrow> Inr False
            | HeadFailure \<Rightarrow> Inl ExternalFailure))"

definition create :: "env \<Rightarrow> string \<Rightarrow> py_error + (string \<times> string option)" where
  "create e txt =
     (case uri_valid_image e txt of
        Inl err \<Rightarrow> Inl err
      | Inr valid \<Rightarrow>
          (if valid
           then (case glitch_from_url e txt of
                   None \<Rightarrow> Inl ExternalFailure
                 | Some thumb \<Rightarrow> Inr (txt, Some thumb))
           else Inr (txt, None)))"

definition put :: "env \<Rightarrow> string \<times> string option \<Rightarrow> Memory list \<Rightarrow> Memory list" where
  "put e created ms =
     filter (\<lambda>m. mid m \<noteq> new_id e) ms
       @ [\<lparr>mid = new_id e, timestamp = now e,
           mtext = fst created, base64_image = snd created\<rparr>]"

section \<open>The submission pipeline\<close>

text \<open>\<open>validate\<close>: \<open>None\<close> on success, otherwise the 400 payload.\<close>

definition validate :: "config \<Rightarrow> Memory list \<Rightarrow> string \<Rightarrow> response option" where
  "validate cfg ms memory_text =
     (if length memory_text = 0 then Some (Status ''Too short!'' 400)
      else if int (length memory_text) > MAX_CHARACTERS cfg
        then Some (Status (ERROR_TOO_LONG cfg) 400)
      else if count_text ms memory_text > 0 then Some (Status (ERROR_UNORIGINAL cfg) 400)
      else None)"

definition slash_commands :: "SlashCommand list" where
  "slash_commands = [SlashLogin, SlashLogout, SlashDanbooru]"

text \<open>
  The \<^verbatim>\<open>for\<close> loop of \<open>new_memory\<close> over the commands. It ends in one of three ways: the
  function goes on with a memory text (the loop ran out, or a command replaced the text
  and the loop was left by \<^verbatim>\<open>break\<close>), it returns the value of a command, or an
  exception of a callback leaves it.
\<close>

datatype dispatch = Proceed string | Return response | Raise py_error

fun slash_loop ::
  "SlashCommand list \<Rightarrow> config \<Rightarrow> env \<Rightarrow> string \<Rightarrow> session \<Rightarrow> dispatch \<times> session" where
  "slash_loop [] cfg e memory_text s = (Proceed memory_text, s)"
| "slash_loop (slash_command # rest) cfg e memory_text s =
     (case attempt slash_command cfg e memory_text s of
        (None, s') \<Rightarrow> slash_loop rest cfg e memory_text s'
      | (Some (Inl err), s') \<Rightarrow> (Raise err, s')
      | (Some (Inr (CreateMemory v)), s') \<Rightarrow> (Proceed v, s')
      | (Some (Inr (Serve v)), s') \<Rightarrow> (Return v, s'))"

text \<open>
  The part of \<open>new_memory\<close> after the loop: the slash guard, whose \<^verbatim>\<open>memory_text[0]\<close>
  is an IndexError on the empty string, then the eviction loop, \<^verbatim>\<open>Memory.create\<close> and
  \<^verbatim>\<open>put\<close>.
\<close>

definition store ::
  "env \<Rightarrow> string \<Rightarrow> string \<Rightarrow> state \<Rightarrow> (py_error + response) \<times> state" where
  "store e original_memory_text memory_text st =
     (case memory_text of
        [] \<Rightarrow> (Inl IndexError, st)
      | c # cs \<Rightarrow>
          if c = CHR ''/'' \<and> memory_text = original_memory_text
          then (Inr (Status ''Invalid Slash Command'' 400), st)
          else (case evict (memories st) of
                  Inl err \<Rightarrow> (Inl err, st)
                | Inr ms \<Rightarrow>
                    (case create e memory_text of
                       Inl err \<Rightarrow> (Inl err, st\<lparr>memories := ms\<rparr>)
                     | Inr created \<Rightarrow>
                         (Inr (Redirect ''show_memories''),
                          st\<lparr>memories := put e created ms\<rparr>))))"

text \<open>
  \<open>new_memory\<close>, the view of \<^verbatim>\<open>POST /new_memory\<close>, on the submitted form text. The
  result is the response, or the exception that leaves the view, and the state after
  the request.
\<close>

definition new_memory ::
  "config \<Rightarrow> env \<Rightarrow> string \<Rightarrow> state \<Rightarrow> (py_error + response) \<times> state" where
  "new_memory cfg e form_text st =
     (let memory_text = strip form_text;
          original_memory_text = memory_text
      in case validate cfg (memories st) memory_text of
           Some validation_payload \<Rightarrow> (Inr validation_payload, st)
         | None \<Rightarrow>
             (case slash_loop slash_commands cfg e memory_text (sess st) of
                (Raise err, s') \<Rightarrow> (Inl err, st\<lparr>sess := s'\<rparr>)
              | (Return v, s') \<Rightarrow> (Inr v, st\<lparr>sess := s'\<rparr>)
              | (Proceed memory_text', s') \<Rightarrow>
                  store e original_memory_text memory_text' (st\<lparr>sess := s'\<rparr>)))"

text \<open>
  A run of requests, each with its own environment and form text, handled one after the
  other: the states after each request, in order.
\<close>

fun submissions :: "config \<Rightarrow> (env \<times> string) list \<Rightarrow> state \<Rightarrow> state list" where
  "submissions cfg [] st = []"
| "submissions cfg ((e, form_text) # rest) st =
     (let st' = snd (new_memory cfg e form_text st) in st' # submissions cfg rest st')"

section \<open>Sample data\<close>

text \<open>
  A configuration, an environment and repositories of ten and of eleven memories, on
  which the theorems below are instantiated. In \<open>ten_memories\<close> the memories with ids 5
  and 8 share the smallest timestamp. In \<open>example_posts_env\<close> the search answers two
  posts and the second is drawn; \<open>duplicate_state\<close> already stores the text
  \<^verbatim>\<open>/login opensesame\<close>; \<open>overfull_state\<close> holds the eleven memories; in
  \<open>example_nofile_env\<close> the search answers one post that has no \<^verbatim>\<open>file_url\<close>.
\<close>

definition example_config :: config where
  "example_config =
     \<lparr>WHISPER_SECRET = ''opensesame'', DEITY_GREET = ''Welcome, deity'',
      DEITY_GOODBYE = ''Farewell'', LOGIN_FAIL = ''Wrong secret'',
      ERROR_DANBOORU = ''No images found'', ERROR_TOO_LONG = ''Too long!'',
      ERROR_UNORIGINAL = ''Unoriginal!'', MAX_CHARACTERS = 140\<rparr>"

definition example_env :: env where
  "example_env =
     \<lparr>fetch_posts = (\<lambda>tags. Some []), random_draw = 0,
      head_request = (\<lambda>uri. HeadStatus 200), glitch_from_url = (\<lambda>uri. Some ''thumb''),
      new_id = 100, now = 1000\<rparr>"

definition example_memory :: "int \<Rightarrow> nat \<Rightarrow> Memory" where
  "example_memory i t =
     \<lparr>mid = i, timestamp = t, mtext = replicate (nat i) CHR ''m'', base64_image = None\<rparr>"

definition ten_memories :: "Memory list" where
  "ten_memories =
     [example_memory 1 7, example_memory 2 3, example_memory 3 10, example_memory 4 6,
      example_memory 5 1, example_memory 6 9, example_memory 7 5, example_memory 8 1,
      example_memory 9 8, example_memory 10 4]"

definition eleven_memories :: "Memory list" where
  "eleven_memories = example_memory 11 11 # ten_memories"

definition example_session :: session where
  "example_session = \<lparr>deity = None, flashes = []\<rparr>"

definition example_state :: state where
  "example_state = \<lparr>memories = ten_memories, sess = example_session\<rparr>"

definition example_posts_env :: env where
  "example_posts_env =
     example_env\<lparr>fetch_posts := (\<lambda>tags. Some [[(''id'', ''1''), (''file_url'', ''/data/a.jpg'')],
                                                [(''file_url'', ''/data/b.png'')]]),
                 random_draw := 1\<rparr>"

definition duplicate_state :: state where
  "duplicate_state =
     \<lparr>memories = [\<lparr>mid = 1, timestamp = 1, mtext = ''/login opensesame'',
                    base64_image = None\<rparr>],
      sess = example_session\<rparr>"

definition overfull_state :: state where
  "overfull_state = \<lparr>memories = eleven_memories, sess = example_session\<rparr>"


section \<open>Facts about the datastore operations\<close>

lemma evict_not_full: "length ms \<noteq> 10 \<Longrightarrow> evict ms = Inr ms"
  by (subst evict.simps) simp

lemma query_order_timestamp_set: "set (query_order_timestamp ms) = set ms"
  by (simp add: query_order_timestamp_def)

lemma query_order_timestamp_Nil: "query_order_timestamp ms = [] \<longleftrightarrow> ms = []"
  using query_order_timestamp_set [of ms] by (metis set_empty)

lemma get_key_oldest:
  assumes "ms \<noteq> []"
  shows "\<exists>old \<in> set ms. get_key (query_order_timestamp ms) = Some (mid old)
           \<and> (\<forall>m \<in> set ms. (timestamp old, mid old) \<le> (timestamp m, mid m))"
proof -
  let ?f = "\<lambda>m. (timestamp m, mid m)"
  from assms obtain old rest where srt: "query_order_timestamp ms = old # rest"
    by (cases "query_order_timestamp ms") (auto simp: query_order_timestamp_Nil)
  have "sorted (map ?f (query_order_timestamp ms))"
    by (simp add: query_order_timestamp_def)
  then have le: "\<forall>m \<in> set rest. ?f old \<le> ?f m"
    by (simp add: srt)
  have mem: "set ms = insert old (set rest)"
    using query_order_timestamp_set [of ms] by (simp add: srt)
  show ?thesis
  proof (intro bexI conjI ballI)
    show "get_key (query_order_timestamp ms) = Some (mid old)"
      by (simp add: srt get_key_def)
    show "old \<in> set ms" by (simp add: mem)
    fix m assume "m \<in> set ms"
    then show "?f old \<le> ?f m" using le mem by auto
  qed
qed

lemma delete_distinct_remove1:
  "distinct (map mid ms) \<Longrightarrow> old \<in> set ms \<Longrightarrow> delete (mid old) ms = remove1 old ms"
proof (induction ms)
  case Nil
  then show ?case by simp
next
  case (Cons m ms)
  show ?case
  proof (cases "m = old")
    case True
    have "filter (\<lambda>x. mid x \<noteq> mid old) ms = ms"
      using Cons.prems(1) True by (auto simp: filter_id_conv image_iff)
    then show ?thesis using True by (simp add: delete_def)
  next
    case False
    then have "old \<in> set ms" using Cons.prems(2) by simp
    moreover have "mid m \<noteq> mid old"
      using Cons.prems(1) \<open>old \<in> set ms\<close> by (auto simp: image_iff)
    ultimately show ?thesis
      using Cons False by (simp add: delete_def)
  qed
qed

lemma delete_length_less: "old \<in> set ms \<Longrightarrow> length (delete (mid old) ms) < length ms"
  unfolding delete_def by (rule length_filter_less) auto

lemma evict_full:
  assumes "length ms = 10"
  shows "\<exists>old \<in> set ms. (\<forall>m \<in> set ms. (timestamp old, mid old) \<le> (timestamp m, mid m))
           \<and> evict ms = Inr (delete (mid old) ms) \<and> length (delete (mid old) ms) < 10"
proof -
  from assms have "ms \<noteq> []" by auto
  from get_key_oldest [OF this] obtain old where old: "old \<in> set ms"
    and key: "get_key (query_order_timestamp ms) = Some (mid old)"
    and least: "\<forall>m \<in> set ms. (timestamp old, mid old) \<le> (timestamp m, mid m)"
    by blast
  have less: "length (delete (mid old) ms) < 10"
    using delete_length_less [OF old] assms by simp
  then have "evict (delete (mid old) ms) = Inr (delete (mid old) ms)"
    by (intro evict_not_full) simp
  then have "evict ms = Inr (delete (mid old) ms)"
    using assms key by (subst evict.simps) simp
  with old least less show ?thesis by blast
qed

lemma evict_bound:
  assumes "length ms \<le> 10"
  shows "\<exists>ms'. evict ms = Inr ms' \<and> length ms' < 10"
proof (cases "length ms = 10")
  case True
  from evict_full [OF this] show ?thesis by blast
next
  case False
  with assms evict_not_full [of ms] show ?thesis by simp
qed

lemma put_length: "length (put e created ms) \<le> Suc (length ms)"
  by (simp add: put_def le_SucI)

lemma put_fresh:
  "new_id e \<notin> mid ` set ms \<Longrightarrow>
     put e created ms = ms @ [\<lparr>mid = new_id e, timestamp = now e,
                              mtext = fst created, base64_image = snd created\<rparr>]"
  by (auto simp: put_def filter_id_conv image_iff)

section \<open>Facts about the string primitives\<close>

lemma startswith_iff: "startswith s p \<longleftrightarrow> (\<exists>r. s = p @ r)"
proof
  assume "startswith s p"
  then have "s = p @ drop (length p) s"
    by (metis append_take_drop_id startswith_def)
  then show "\<exists>r. s = p @ r" ..
next
  assume "\<exists>r. s = p @ r"
  then show "startswith s p" by (auto simp: startswith_def)
qed

lemma re_match_None: "re_match pattern txt = None \<longleftrightarrow> \<not> startswith txt pattern"
  by (simp add: re_match_def)

lemma isspace_lower_char: "\<not> isspace c \<Longrightarrow> \<not> isspace (lower_char c)"
  by (auto simp: isspace_def lower_char_def Let_def)

lemma dropWhile_hd: "xs \<noteq> [] \<Longrightarrow> \<not> P (hd xs) \<Longrightarrow> dropWhile P xs = xs"
  by (cases xs) auto

lemma strip_id:
  assumes "s \<noteq> []" "\<not> isspace (hd s)" "\<not> isspace (last s)"
  shows "strip s = s"
proof -
  have "dropWhile isspace s = s"
    using assms by (simp add: dropWhile_hd)
  moreover have "dropWhile isspace (rev s) = rev s"
    using assms by (simp add: dropWhile_hd hd_rev)
  ultimately show ?thesis by (simp add: strip_def)
qed

lemma strip_keeps_prefix:
  assumes "p \<noteq> []" "\<not> isspace (hd p)" "\<not> isspace (last p)"
  shows "\<exists>r. strip (p @ s) = p @ r"
proof -
  have front: "dropWhile isspace (p @ s) = p @ s"
    using assms by (cases p) auto
  have rear: "\<exists>x. dropWhile isspace (rev s @ rev p) = x @ rev p"
  proof (cases "\<forall>c \<in> set (rev s). isspace c")
    case True
    then have "dropWhile isspace (rev s @ rev p) = dropWhile isspace (rev p)"
      by (intro dropWhile_append2) simp
    also have "\<dots> = rev p"
      using assms by (simp add: dropWhile_hd hd_rev)
    finally show ?thesis by simp
  next
    case False
    then obtain c where "c \<in> set (rev s)" "\<not> isspace c" by blast
    then have "dropWhile isspace (rev s @ rev p) = dropWhile isspace (rev s) @ rev p"
      by (intro dropWhile_append1)
    then show ?thesis by blast
  qed
  then obtain x where "dropWhile isspace (rev s @ rev p) = x @ rev p" ..
  then have "strip (p @ s) = p @ rev x"
    by (simp add: strip_def front)
  then show ?thesis ..
qed

lemma split_no_sep: "d \<notin> set s \<Longrightarrow> split d s = [s]"
  by (induction s) auto

lemma replace_empty_prefix:
  "p \<noteq> [] \<Longrightarrow> replace_empty p (p @ r) = replace_empty p r"
  by (cases p) (auto simp: startswith_def)

section \<open>Facts about dispatch and the pipeline\<close>

lemma attempt_no_match:
  "re_match (CHR ''/'' # NAME cmd) (strip (lower txt)) = None \<Longrightarrow>
     attempt cmd cfg e txt s = (None, s)"
  by (simp add: attempt_def)

lemma attempt_match:
  "re_match (CHR ''/'' # NAME cmd) (strip (lower txt)) \<noteq> None \<Longrightarrow>
     attempt cmd cfg e txt s =
       (case callback cmd cfg e (parse_args (CHR ''/'' # NAME cmd) (strip (lower txt))) s of
          (r, s') \<Rightarrow> (Some r, s'))"
  by (auto simp: attempt_def Let_def)

lemma slash_loop_no_match:
  "\<forall>c \<in> set cmds. re_match (CHR ''/'' # NAME c) (strip (lower txt)) = None \<Longrightarrow>
     slash_loop cmds cfg e txt s = (Proceed txt, s)"
  by (induction cmds) (simp_all add: attempt_no_match)

lemma slash_loop_first_match:
  assumes "\<forall>c \<in> set pre. re_match (CHR ''/'' # NAME c) (strip (lower txt)) = None"
    and "re_match (CHR ''/'' # NAME cmd) (strip (lower txt)) \<noteq> None"
  shows "slash_loop (pre @ cmd # post) cfg e txt s =
           (case callback cmd cfg e (parse_args (CHR ''/'' # NAME cmd) (strip (lower txt))) s of
              (Inl err, s') \<Rightarrow> (Raise err, s')
            | (Inr (CreateMemory v), s') \<Rightarrow> (Proceed v, s')
            | (Inr (Serve v), s') \<Rightarrow> (Return v, s'))"
  using assms(1)
proof (induction pre)
  case Nil
  show ?case
    by (simp add: attempt_match [OF assms(2)]
          split: prod.splits sum.splits SlashCommandResponse.splits)
next
  case (Cons c pre)
  then show ?case by (simp add: attempt_no_match)
qed

lemma match_unique:
  assumes "re_match (CHR ''/'' # NAME c) t \<noteq> None" "re_match (CHR ''/'' # NAME c') t \<noteq> None"
  shows "c = c'"
  using assms by (cases c; cases c') (auto simp: re_match_None startswith_iff)

lemma slash_loop_commands:
  assumes "re_match (CHR ''/'' # NAME cmd) (strip (lower txt)) \<noteq> None"
  shows "slash_loop slash_commands cfg e txt s =
           (case callback cmd cfg e (parse_args (CHR ''/'' # NAME cmd) (strip (lower txt))) s of
              (Inl err, s') \<Rightarrow> (Raise err, s')
            | (Inr (CreateMemory v), s') \<Rightarrow> (Proceed v, s')
            | (Inr (Serve v), s') \<Rightarrow> (Return v, s'))"
proof -
  obtain pre post where split: "slash_commands = pre @ cmd # post" and "cmd \<notin> set pre"
    by (cases cmd) (auto simp: slash_commands_def Cons_eq_append_conv intro: that [of "[]"] that [of "[SlashLogin]"] that [of "[SlashLogin, SlashLogout]"])
  then have "\<forall>c \<in> set pre. re_match (CHR ''/'' # NAME c) (strip (lower txt)) = None"
    using match_unique [OF assms] by blast
  from slash_loop_first_match [OF this assms] show ?thesis
    by (simp add: split)
qed

lemma SlashLogin_callback_cases:
  "SlashLogin_callback cfg args s = (Inl TypeError, s)
   \<or> SlashLogin_callback cfg args s = (Inr (Serve (Status (LOGIN_FAIL cfg) 401)), s)
   \<or> SlashLogin_callback cfg args s =
        (Inr (Serve (Redirect ''show_memories'')),
         s\<lparr>deity := Some True, flashes := flashes s @ [DEITY_GREET cfg]\<rparr>)"
  by (cases "(cfg, args, s)" rule: SlashLogin_callback.cases) auto

lemma SlashLogout_callback_cases:
  "SlashLogout_callback cfg args s = (Inl TypeError, s)
   \<or> SlashLogout_callback cfg args s =
        (Inr (Serve (Redirect ''show_memories'')),
         s\<lparr>deity := None, flashes := flashes s @ [DEITY_GOODBYE cfg]\<rparr>)"
  by (cases "(cfg, args, s)" rule: SlashLogout_callback.cases) auto

lemma callback_error_session:
  "callback cmd cfg e args s = (Inl err, s') \<Longrightarrow> s' = s"
  using SlashLogin_callback_cases [of cfg args s] SlashLogout_callback_cases [of cfg args s]
  by (cases cmd) auto

lemma callback_create_nonempty:
  "callback cmd cfg e args s = (Inr (CreateMemory v), s') \<Longrightarrow> v \<noteq> [] \<and> s' = s"
  using SlashLogin_callback_cases [of cfg args s] SlashLogout_callback_cases [of cfg args s]
  by (cases cmd)
     (auto simp: SlashDanbooru_callback_def split: option.splits sum.splits if_splits)

lemma slash_loop_Proceed:
  assumes "slash_loop cmds cfg e txt s = (Proceed v, s')"
  shows "(v = txt \<or> v \<noteq> []) \<and> s' = s"
  using assms
proof (induction cmds)
  case Nil
  then show ?case by simp
next
  case (Cons c cmds)
  show ?case
  proof (cases "re_match (CHR ''/'' # NAME c) (strip (lower txt)) = None")
    case True
    with Cons show ?thesis by (simp add: attempt_no_match)
  next
    case False
    obtain r s1 where cb: "callback c cfg e (parse_args (CHR ''/'' # NAME c) (strip (lower txt))) s = (r, s1)"
      by (cases "callback c cfg e (parse_args (CHR ''/'' # NAME c) (strip (lower txt))) s")
    with Cons.prems False have "r = Inr (CreateMemory v)" "s1 = s'"
      by (auto simp: attempt_match split: sum.splits SlashCommandResponse.splits)
    with cb callback_create_nonempty show ?thesis by blast
  qed
qed

lemma new_memory_invalid:
  "validate cfg (memories st) (strip form_text) = Some payload \<Longrightarrow>
     new_memory cfg e form_text st = (Inr payload, st)"
  by (simp add: new_memory_def Let_def)

lemma new_memory_valid:
  "validate cfg (memories st) (strip form_text) = None \<Longrightarrow>
     new_memory cfg e form_text st =
       (case slash_loop slash_commands cfg e (strip form_text) (sess st) of
          (Raise err, s') \<Rightarrow> (Inl err, st\<lparr>sess := s'\<rparr>)
        | (Return v, s') \<Rightarrow> (Inr v, st\<lparr>sess := s'\<rparr>)
        | (Proceed memory_text', s') \<Rightarrow>
            store e (strip form_text) memory_text' (st\<lparr>sess := s'\<rparr>))"
  by (simp add: new_memory_def Let_def)

lemma store_memories:
  assumes "length (memories st) \<le> 10"
  shows "memories (snd (store e orig t st)) = memories st
       \<or> (\<exists>ms. evict (memories st) = Inr ms \<and> length ms < 10
             \<and> (memories (snd (store e orig t st)) = ms
                \<or> (\<exists>created. memories (snd (store e orig t st)) = put e created ms)))"
proof -
  from evict_bound [OF assms] obtain ms where "evict (memories st) = Inr ms" "length ms < 10"
    by blast
  then show ?thesis
    by (auto simp: store_def split: list.splits sum.splits)
qed

lemma new_memory_memories:
  assumes "length (memories st) \<le> 10"
  shows "memories (snd (new_memory cfg e form_text st)) = memories st
       \<or> (\<exists>ms. evict (memories st) = Inr ms \<and> length ms < 10
             \<and> (memories (snd (new_memory cfg e form_text st)) = ms
                \<or> (\<exists>created. memories (snd (new_memory cfg e form_text st)) = put e created ms)))"
proof (cases "validate cfg (memories st) (strip form_text)")
  case (Some payload)
  then show ?thesis by (simp add: new_memory_invalid)
next
  case None
  obtain d s' where loop: "slash_loop slash_commands cfg e (strip form_text) (sess st) = (d, s')"
    by (cases "slash_loop slash_commands cfg e (strip form_text) (sess st)")
  show ?thesis
  proof (cases d)
    case (Proceed t)
    have "length (memories (st\<lparr>sess := s'\<rparr>)) \<le> 10" using assms by simp
    from store_memories [OF this, of e "strip form_text" t] show ?thesis
      by (simp add: new_memory_valid [OF None] loop Proceed)
  qed (simp_all add: new_memory_valid [OF None] loop)
qed

lemma new_memory_capacity:
  assumes "length (memories st) \<le> 10"
  shows "length (memories (snd (new_memory cfg e form_text st))) \<le> 10"
proof -
  have "\<And>ms created. length ms < 10 \<Longrightarrow> length (put e created ms) \<le> 10"
    using put_length [of e] by (meson Suc_leI le_trans)
  with new_memory_memories [OF assms, of cfg e form_text] assms show ?thesis
    by (metis less_imp_le)
qed

lemma length_ten_memories: "length ten_memories = 10"
  by (simp add: ten_memories_def)

lemma length_eleven_memories: "length eleven_memories = 11"
  by (simp add: eleven_memories_def ten_memories_def)

lemma validate_None_nonempty: "validate cfg ms t = None \<Longrightarrow> t \<noteq> []"
  by (auto simp: validate_def split: if_splits)

lemma store_no_IndexError: "t \<noteq> [] \<Longrightarrow> fst (store e orig t st) \<noteq> Inl IndexError"
proof -
  assume "t \<noteq> []"
  then obtain c cs where t: "t = c # cs" by (cases t) auto
  have "evict (memories st) \<noteq> Inl IndexError"
  proof (cases "length (memories st) = 10")
    case True
    from evict_full [OF this] show ?thesis by auto
  next
    case False
    then show ?thesis by (simp add: evict_not_full)
  qed
  moreover have "create e t \<noteq> Inl IndexError"
    by (auto simp: create_def uri_valid_image_def
             split: sum.splits option.splits head_result.splits if_splits)
  ultimately show ?thesis
    by (auto simp: store_def t split: sum.splits)
qed

lemma slash_loop_no_IndexError: "slash_loop cmds cfg e txt s \<noteq> (Raise IndexError, s')"
proof (induction cmds)
  case Nil
  show ?case by simp
next
  case (Cons c cmds)
  show ?case
  proof (cases "re_match (CHR ''/'' # NAME c) (strip (lower txt)) = None")
    case True
    with Cons show ?thesis by (simp add: attempt_no_match)
  next
    case False
    have "callback c cfg e args s \<noteq> (Inl IndexError, s')" for args
      using SlashLogin_callback_cases [of cfg args s] SlashLogout_callback_cases [of cfg args s]
      by (cases c)
         (auto simp: SlashDanbooru_callback_def split: option.splits sum.splits if_splits)
    then show ?thesis
      by (auto simp: attempt_match [OF False]
               split: prod.splits sum.splits SlashCommandResponse.splits)
  qed
qed

lemma attempt_fst_None:
  "fst (attempt cmd cfg e txt s) = None
     \<longleftrightarrow> re_match (CHR ''/'' # NAME cmd) (strip (lower txt)) = None"
  by (auto simp: attempt_def Let_def split: prod.splits)

lemma lower_login: "lower (''/login'' @ r) = ''/login'' @ lower r"
  by (simp add: lower_def lower_char_def)

lemma strip_lower_login_prefix: "\<exists>r. strip (lower (strip (''/login '' @ s))) = ''/login'' @ r"
proof -
  have p: "''/login'' \<noteq> []" "\<not> isspace (hd ''/login'')" "\<not> isspace (last ''/login'')"
    by (simp_all add: isspace_def)
  from strip_keeps_prefix [OF p, of "CHR '' '' # s"] obtain r
    where "strip (''/login '' @ s) = ''/login'' @ r" by auto
  then have "lower (strip (''/login '' @ s)) = ''/login'' @ lower r"
    by (simp only: lower_login)
  with strip_keeps_prefix [OF p, of "lower r"] show ?thesis by simp
qed

lemma login_matched_no_memory:
  assumes "re_match (CHR ''/'' # NAME SlashLogin) (strip (lower (strip form_text))) \<noteq> None"
  shows "memories (snd (new_memory cfg e form_text st)) = memories st"
proof (cases "validate cfg (memories st) (strip form_text)")
  case (Some payload)
  then show ?thesis by (simp add: new_memory_invalid)
next
  case None
  show ?thesis
    using SlashLogin_callback_cases
      [of cfg "parse_args ''/login'' (strip (lower (strip form_text)))" "sess st"]
    by (auto simp: new_memory_valid [OF None] slash_loop_commands [OF assms])
qed

lemma login_no_memory:
  "memories (snd (new_memory cfg e (''/login '' @ s) st)) = memories st"
proof -
  from strip_lower_login_prefix [of s] have
    "re_match (CHR ''/'' # NAME SlashLogin) (strip (lower (strip (''/login '' @ s)))) \<noteq> None"
    by (auto simp: re_match_None startswith_iff)
  then show ?thesis by (rule login_matched_no_memory)
qed

lemma parse_args_login_token:
  assumes "ls \<noteq> []" "\<forall>c \<in> set ls. \<not> isspace c" "replace_empty ''/login'' ls = ls"
  shows "parse_args ''/login'' (''/login'' @ CHR '' '' # ls) = [ls]"
proof -
  have rep: "replace_empty ''/login'' (''/login'' @ CHR '' '' # ls) = CHR '' '' # ls"
  proof -
    have "replace_empty ''/login'' (''/login'' @ CHR '' '' # ls)
        = replace_empty ''/login'' (CHR '' '' # ls)"
      by (rule replace_empty_prefix) simp
    also have "\<dots> = CHR '' '' # ls"
      using assms(3) by (simp add: startswith_def)
    finally show ?thesis .
  qed
  have "isspace CHR '' ''" by (simp add: isspace_def)
  with assms(2) have "CHR '' '' \<notin> set ls" by blast
  then have spl: "split CHR '' '' (CHR '' '' # ls) = [[], ls]"
    by (simp add: split_no_sep)
  have "\<not> isspace (hd ls)" "\<not> isspace (last ls)"
    using assms(1,2) by simp_all
  with assms(1) have "strip ls = ls" by (simp add: strip_id)
  moreover have "strip [] = []" by (simp add: strip_def)
  ultimately show ?thesis
    unfolding parse_args_def rep spl using assms(1) by simp
qed

lemma login_one_argument:
  assumes valid: "validate cfg (memories st) (strip form_text) = None"
    and match: "re_match (CHR ''/'' # NAME SlashLogin) (strip (lower (strip form_text))) \<noteq> None"
    and args: "parse_args ''/login'' (strip (lower (strip form_text))) = [a]"
  shows "new_memory cfg e form_text st =
           (if a = WHISPER_SECRET cfg
            then (Inr (Redirect ''show_memories''),
                  st\<lparr>sess := (sess st)\<lparr>deity := Some True,
                                         flashes := flashes (sess st) @ [DEITY_GREET cfg]\<rparr>\<rparr>)
            else (Inr (Status (LOGIN_FAIL cfg) 401), st))"
  by (simp add: new_memory_valid [OF valid] slash_loop_commands [OF match] args)

lemma login_token_text:
  assumes "s \<noteq> []" "\<forall>c \<in> set s. \<not> isspace c"
  shows "strip (''/login '' @ s) = ''/login '' @ s"
    and "strip (lower (''/login '' @ s)) = ''/login'' @ CHR '' '' # lower s"
proof -
  have "\<not> isspace (last s)" using assms by simp
  then show "strip (''/login '' @ s) = ''/login '' @ s"
    using assms(1) by (intro strip_id) (simp_all add: isspace_def)
  have low: "lower (''/login '' @ s) = ''/login '' @ lower s"
    by (simp add: lower_def lower_char_def)
  have ls: "lower s \<noteq> []" "\<forall>c \<in> set (lower s). \<not> isspace c"
    using assms by (auto simp: lower_def isspace_lower_char)
  then have "\<not> isspace (last (lower s))" by simp
  then have "strip (''/login '' @ lower s) = ''/login '' @ lower s"
    using ls(1) by (intro strip_id) (simp_all add: isspace_def)
  then show "strip (lower (''/login '' @ s)) = ''/login'' @ CHR '' '' # lower s"
    unfolding low by simp
qed



lemma submissions_capacity:
  "length (memories st) \<le> 10 \<Longrightarrow>
     \<forall>st' \<in> set (submissions cfg reqs st). length (memories st') \<le> 10"
proof (induction reqs arbitrary: st)
  case Nil
  then show ?case by simp
next
  case (Cons r reqs)
  obtain e form_text where r: "r = (e, form_text)" by (cases r)
  have "length (memories (snd (new_memory cfg e form_text st))) \<le> 10"
    using Cons.prems by (rule new_memory_capacity)
  with Cons.IH [OF this] show ?case
    by (simp add: r Let_def)
qed

section \<open>The capacity of the repository\<close>

text \<open>
  Claim C1. From a repository of at most ten memories, every state reached by a run of
  submissions (accepted or not) holds at most ten memories. Within one request the
  repository takes no other contents than these: the ones it had, the ones the
  eviction loop leaves, which are fewer than ten, and those with the new memory put
  in; so the loop has finished, below capacity, before the memory is inserted.
\<close>

theorem capacity_invariant:
  assumes "length (memories st) \<le> 10"
  shows "(\<forall>st' \<in> set (submissions cfg reqs st). length (memories st') \<le> 10)
       \<and> (\<forall>e form_text.
            memories (snd (new_memory cfg e form_text st)) = memories st
          \<or> (\<exists>ms. evict (memories st) = Inr ms \<and> length ms < 10
                \<and> (memories (snd (new_memory cfg e form_text st)) = ms
                   \<or> (\<exists>created.
                        memories (snd (new_memory cfg e form_text st)) = put e created ms))))"
  using submissions_capacity [OF assms] new_memory_memories [OF assms] by blast

theorem capacity_invariant_witness:
  "length (memories example_state) \<le> 10
   \<and> list_all (\<lambda>st'. length (memories st') \<le> 10)
        (submissions example_config
           [(example_env, ''hello''), (example_env\<lparr>new_id := 101\<rparr>, ''world'')]
           example_state)"
proof -
  have h: "length (memories example_state) \<le> 10"
    by (simp add: example_state_def length_ten_memories)
  from capacity_invariant [OF h] have
    "\<forall>st' \<in> set (submissions example_config
                     [(example_env, ''hello''), (example_env\<lparr>new_id := 101\<rparr>, ''world'')]
                     example_state).
        length (memories st') \<le> 10"
    by (rule conjunct1)
  then have "list_all (\<lambda>st'. length (memories st') \<le> 10)
        (submissions example_config
           [(example_env, ''hello''), (example_env\<lparr>new_id := 101\<rparr>, ''world'')]
           example_state)"
    by (simp only: list_all_iff)
  with h show ?thesis by (rule conjI)
qed

text \<open>
  Claim C7. The eviction loop before the insert is to bring every repository of ten or
  more memories below ten. The code does not: the loop tests \<^verbatim>\<open>count() == 10\<close>, so
  on the eleven memories of \<open>overfull_state\<close> its body never runs, the eleven remain,
  and the accepted submission \<^verbatim>\<open>hello\<close> makes twelve.
\<close>

theorem evict_overfull_evaluation:
  "length (memories overfull_state) = 11
   \<and> evict (memories overfull_state) = Inr (memories overfull_state)
   \<and> fst (new_memory example_config example_env ''hello'' overfull_state)
       = Inr (Redirect ''show_memories'')
   \<and> length (memories (snd (new_memory example_config example_env ''hello'' overfull_state))) = 12"
  by code_simp

text \<open>
  Claim C2. When ten memories are stored (under distinct keys, the allocated id being
  new) and a submission is accepted, that is, it passes validation, no command answers
  it, the slash guard lets it through and the entity is created, then the repository
  afterwards is the old one without exactly one memory \<open>old\<close>, followed by the new
  memory; \<open>old\<close> has the smallest timestamp and, among the memories with that
  timestamp, the smallest id.
\<close>

theorem eviction_order:
  assumes full: "length (memories st) = 10"
    and keys: "distinct (map mid (memories st))"
    and fresh: "new_id e \<notin> mid ` set (memories st)"
    and valid: "validate cfg (memories st) (strip form_text) = None"
    and loop: "slash_loop slash_commands cfg e (strip form_text) (sess st) = (Proceed memory_text, s')"
    and guard: "\<not> (hd memory_text = CHR ''/'' \<and> memory_text = strip form_text)"
    and created: "create e memory_text = Inr created"
  shows "\<exists>old \<in> set (memories st).
           (\<forall>m \<in> set (memories st).
              timestamp old < timestamp m \<or> (timestamp old = timestamp m \<and> mid old \<le> mid m))
         \<and> new_memory cfg e form_text st =
             (Inr (Redirect ''show_memories''),
              st\<lparr>memories := remove1 old (memories st)
                   @ [\<lparr>mid = new_id e, timestamp = now e,
                       mtext = fst created, base64_image = snd created\<rparr>]\<rparr>)"
proof -
  from evict_full [OF full] obtain old where old: "old \<in> set (memories st)"
    and least: "\<forall>m \<in> set (memories st). (timestamp old, mid old) \<le> (timestamp m, mid m)"
    and ev: "evict (memories st) = Inr (delete (mid old) (memories st))"
    by blast
  have rm: "delete (mid old) (memories st) = remove1 old (memories st)"
    using keys old by (rule delete_distinct_remove1)
  have "new_id e \<notin> mid ` set (remove1 old (memories st))"
    using fresh set_remove1_subset [of old "memories st"] by blast
  then have pt: "put e created (remove1 old (memories st)) =
      remove1 old (memories st)
        @ [\<lparr>mid = new_id e, timestamp = now e, mtext = fst created, base64_image = snd created\<rparr>]"
    by (rule put_fresh)
  from slash_loop_Proceed [OF loop] validate_None_nonempty [OF valid]
  have ne: "memory_text \<noteq> []" and s': "s' = sess st" by auto
  then obtain c cs where mt: "memory_text = c # cs" by (cases memory_text) auto
  have "store e (strip form_text) memory_text st =
      (Inr (Redirect ''show_memories''), st\<lparr>memories := put e created (remove1 old (memories st))\<rparr>)"
    using guard created unfolding mt by (simp add: store_def ev rm)
  then have nm: "new_memory cfg e form_text st =
      (Inr (Redirect ''show_memories''), st\<lparr>memories := put e created (remove1 old (memories st))\<rparr>)"
    by (simp add: new_memory_valid [OF valid] loop s')
  have "\<forall>m \<in> set (memories st).
          timestamp old < timestamp m \<or> (timestamp old = timestamp m \<and> mid old \<le> mid m)"
    using least by (auto simp: less_eq_prod_def)
  with old nm pt show ?thesis by auto
qed

theorem eviction_order_witness:
  "length (memories example_state) = 10
   \<and> new_memory example_config example_env ''hello'' example_state =
       (Inr (Redirect ''show_memories''),
        example_state\<lparr>memories := remove1 (example_memory 5 1) ten_memories
           @ [\<lparr>mid = 100, timestamp = 1000, mtext = ''hello'', base64_image = None\<rparr>]\<rparr>)"
proof -
  have h1: "length (memories example_state) = 10"
    by (simp add: example_state_def length_ten_memories)
  have h2: "distinct (map mid (memories example_state))"
    by (simp add: example_state_def ten_memories_def example_memory_def)
  have h3: "new_id example_env \<notin> mid ` set (memories example_state)"
    by (simp add: example_state_def ten_memories_def example_memory_def example_env_def)
  have h4: "validate example_config (memories example_state) (strip ''hello'') = None"
    by code_simp
  have h5: "slash_loop slash_commands example_config example_env (strip ''hello'')
              (sess example_state) = (Proceed ''hello'', example_session)"
    by code_simp
  have h6: "\<not> (hd ''hello'' = CHR ''/'' \<and> ''hello'' = strip ''hello'')"
    by simp
  have h7: "create example_env ''hello'' = Inr (''hello'', None)"
    by code_simp
  from eviction_order [OF h1 h2 h3 h4 h5 h6 h7] obtain old
    where old: "old \<in> set (memories example_state)"
      and least: "\<forall>m \<in> set (memories example_state).
              timestamp old < timestamp m \<or> (timestamp old = timestamp m \<and> mid old \<le> mid m)"
      and nm: "new_memory example_config example_env ''hello'' example_state =
             (Inr (Redirect ''show_memories''),
              example_state\<lparr>memories := remove1 old (memories example_state)
                   @ [\<lparr>mid = new_id example_env, timestamp = now example_env,
                       mtext = fst (''hello'', None :: string option),
                       base64_image = snd (''hello'', None)\<rparr>]\<rparr>)"
    by (elim bexE conjE) (rule that)
  have "example_memory 5 1 \<in> set (memories example_state)"
    by (simp add: example_state_def ten_memories_def)
  with least have "timestamp old < timestamp (example_memory 5 1)
      \<or> (timestamp old = timestamp (example_memory 5 1) \<and> mid old \<le> mid (example_memory 5 1))"
    by (rule bspec)
  then have "timestamp old < 1 \<or> (timestamp old = 1 \<and> mid old \<le> 5)"
    by (simp add: example_memory_def)
  with old have "old = example_memory 5 1"
    by (auto simp: example_state_def ten_memories_def example_memory_def)
  with nm have "new_memory example_config example_env ''hello'' example_state =
       (Inr (Redirect ''show_memories''),
        example_state\<lparr>memories := remove1 (example_memory 5 1) ten_memories
           @ [\<lparr>mid = 100, timestamp = 1000, mtext = ''hello'', base64_image = None\<rparr>]\<rparr>)"
    by (simp add: example_state_def example_env_def)
  with h1 show ?thesis by (rule conjI)
qed

section \<open>Validation\<close>

text \<open>
  Claim C5. When the trimmed text is empty, longer than \<open>MAX_CHARACTERS\<close> or equal to
  the text of a stored memory, the view answers 400, with the message \<^verbatim>\<open>Too short!\<close>,
  \<open>ERROR_TOO_LONG\<close> or \<open>ERROR_UNORIGINAL\<close> (the first that applies), and the state,
  repository and session, is the one before the request. No hypothesis is made on the
  text: it may be a command, which is then not run.
\<close>

theorem validation_first:
  assumes "strip form_text = [] \<or> int (length (strip form_text)) > MAX_CHARACTERS cfg
           \<or> (\<exists>m \<in> set (memories st). mtext m = strip form_text)"
  shows "new_memory cfg e form_text st =
           (Inr (Status (if strip form_text = [] then ''Too short!''
                         else if int (length (strip form_text)) > MAX_CHARACTERS cfg
                           then ERROR_TOO_LONG cfg
                         else ERROR_UNORIGINAL cfg) 400), st)"
proof -
  have "(\<exists>m \<in> set (memories st). mtext m = strip form_text)
        \<longleftrightarrow> count_text (memories st) (strip form_text) > 0"
    by (auto simp: count_text_def filter_empty_conv)
  with assms show ?thesis
    by (intro new_memory_invalid) (auto simp: validate_def)
qed

theorem validation_first_witness:
  "new_memory example_config example_env ''/login opensesame'' duplicate_state
     = (Inr (Status ''Unoriginal!'' 400), duplicate_state)"
proof -
  have s: "strip ''/login opensesame'' = ''/login opensesame''" by code_simp
  have h: "strip ''/login opensesame'' = []
           \<or> int (length (strip ''/login opensesame'')) > MAX_CHARACTERS example_config
           \<or> (\<exists>m \<in> set (memories duplicate_state). mtext m = strip ''/login opensesame'')"
    by (simp add: s duplicate_state_def)
  from validation_first [OF h, of example_env] show ?thesis
    by (simp add: s example_config_def)
qed

section \<open>Command dispatch\<close>

text \<open>
  Claim C4, as stated: a command does not match when other characters directly follow
  its name. The pattern \<^verbatim>\<open>/login\s*\<close> is matched at the start of the text only, and
  \<^verbatim>\<open>\s*\<close> matches the empty string: \<^verbatim>\<open>/loginx\<close> is the login command with the
  argument \<^verbatim>\<open>x\<close>, answered 401.
\<close>

theorem dispatch_counterexample:
  "attempt SlashLogin example_config example_env ''/loginx'' example_session
     = (Some (Inr (Serve (Status ''Wrong secret'' 401))), example_session)
   \<and> new_memory example_config example_env ''/loginx'' example_state
     = (Inr (Status ''Wrong secret'' 401), example_state)"
  by code_simp

text \<open>
  Claim C4, amended: the commands are tried in the order login, logout, danbooru; a
  command matches exactly when the lower-cased, trimmed text starts with \<^verbatim>\<open>/\<close> and
  its name, whatever follows; the outcome of the first command that matches is the
  outcome of the loop, whatever commands come after it; when no command matches, the
  loop goes on with the text unchanged.
\<close>

theorem dispatch_first_match:
  "slash_commands = [SlashLogin, SlashLogout, SlashDanbooru]
   \<and> (fst (attempt cmd cfg e memory_text s) = None
        \<longleftrightarrow> \<not> startswith (strip (lower memory_text)) (CHR ''/'' # NAME cmd))
   \<and> ((\<forall>c \<in> set pre. fst (attempt c cfg e memory_text s) = None)
        \<and> fst (attempt cmd cfg e memory_text s) \<noteq> None \<longrightarrow>
       slash_loop (pre @ cmd # post) cfg e memory_text s =
         (case callback cmd cfg e (parse_args (CHR ''/'' # NAME cmd) (strip (lower memory_text))) s of
            (Inl err, s') \<Rightarrow> (Raise err, s')
          | (Inr (CreateMemory v), s') \<Rightarrow> (Proceed v, s')
          | (Inr (Serve v), s') \<Rightarrow> (Return v, s')))
   \<and> ((\<forall>c \<in> set cmds. fst (attempt c cfg e memory_text s) = None) \<longrightarrow>
       slash_loop cmds cfg e memory_text s = (Proceed memory_text, s))"
proof (intro conjI impI)
  show "slash_commands = [SlashLogin, SlashLogout, SlashDanbooru]"
    by (simp add: slash_commands_def)
  show "fst (attempt cmd cfg e memory_text s) = None
          \<longleftrightarrow> \<not> startswith (strip (lower memory_text)) (CHR ''/'' # NAME cmd)"
    by (simp only: attempt_fst_None re_match_None)
next
  assume "(\<forall>c \<in> set pre. fst (attempt c cfg e memory_text s) = None)
            \<and> fst (attempt cmd cfg e memory_text s) \<noteq> None"
  then have "\<forall>c \<in> set pre. re_match (CHR ''/'' # NAME c) (strip (lower memory_text)) = None"
    and "re_match (CHR ''/'' # NAME cmd) (strip (lower memory_text)) \<noteq> None"
    by (simp_all only: attempt_fst_None) simp_all
  then show "slash_loop (pre @ cmd # post) cfg e memory_text s =
         (case callback cmd cfg e (parse_args (CHR ''/'' # NAME cmd) (strip (lower memory_text))) s of
            (Inl err, s') \<Rightarrow> (Raise err, s')
          | (Inr (CreateMemory v), s') \<Rightarrow> (Proceed v, s')
          | (Inr (Serve v), s') \<Rightarrow> (Return v, s'))"
    by (rule slash_loop_first_match)
next
  assume "\<forall>c \<in> set cmds. fst (attempt c cfg e memory_text s) = None"
  then have "\<forall>c \<in> set cmds. re_match (CHR ''/'' # NAME c) (strip (lower memory_text)) = None"
    by (simp only: attempt_fst_None)
  then show "slash_loop cmds cfg e memory_text s = (Proceed memory_text, s)"
    by (rule slash_loop_no_match)
qed

theorem dispatch_first_match_witness:
  "fst (attempt SlashLogin example_config example_env ''/Logout'' example_session) = None
   \<and> fst (attempt SlashLogout example_config example_env ''/Logout'' example_session) \<noteq> None
   \<and> slash_loop ([SlashLogin] @ SlashLogout # [SlashDanbooru])
        example_config example_env ''/Logout'' example_session
      = (Return (Redirect ''show_memories''), \<lparr>deity = None, flashes = [''Farewell'']\<rparr>)
   \<and> slash_loop slash_commands example_config example_env ''hello'' example_session
      = (Proceed ''hello'', example_session)"
proof -
  have a: "fst (attempt SlashLogin example_config example_env ''/Logout'' example_session) = None"
    by code_simp
  have b: "fst (attempt SlashLogout example_config example_env ''/Logout'' example_session) \<noteq> None"
    by code_simp
  have c: "(case callback SlashLogout example_config example_env
                   (parse_args (CHR ''/'' # NAME SlashLogout) (strip (lower ''/Logout'')))
                   example_session of
              (Inl err, s') \<Rightarrow> (Raise err, s')
            | (Inr (CreateMemory v), s') \<Rightarrow> (Proceed v, s')
            | (Inr (Serve v), s') \<Rightarrow> (Return v, s'))
           = (Return (Redirect ''show_memories''), \<lparr>deity = None, flashes = [''Farewell'']\<rparr>)"
    by code_simp
  have d: "\<forall>c \<in> set slash_commands.
             fst (attempt c example_config example_env ''hello'' example_session) = None"
    by code_simp
  from a have a': "\<forall>c \<in> set [SlashLogin].
      fst (attempt c example_config example_env ''/Logout'' example_session) = None"
    by simp
  note m = dispatch_first_match
    [where cmd = SlashLogout and cfg = example_config and e = example_env
       and memory_text = "''/Logout''" and s = example_session and pre = "[SlashLogin]"
       and post = "[SlashDanbooru]", THEN conjunct2, THEN conjunct2, THEN conjunct1]
  from m a' b have "slash_loop ([SlashLogin] @ SlashLogout # [SlashDanbooru])
        example_config example_env ''/Logout'' example_session
      = (case callback SlashLogout example_config example_env
                   (parse_args (CHR ''/'' # NAME SlashLogout) (strip (lower ''/Logout'')))
                   example_session of
              (Inl err, s') \<Rightarrow> (Raise err, s')
            | (Inr (CreateMemory v), s') \<Rightarrow> (Proceed v, s')
            | (Inr (Serve v), s') \<Rightarrow> (Return v, s'))"
    by blast
  then have e: "slash_loop ([SlashLogin] @ SlashLogout # [SlashDanbooru])
        example_config example_env ''/Logout'' example_session
      = (Return (Redirect ''show_memories''), \<lparr>deity = None, flashes = [''Farewell'']\<rparr>)"
    using c by (rule trans)
  note n = dispatch_first_match
    [where cfg = example_config and e = example_env and memory_text = "''hello''"
       and s = example_session and cmds = slash_commands,
     THEN conjunct2, THEN conjunct2, THEN conjunct2]
  from n d
  have f: "slash_loop slash_commands example_config example_env ''hello'' example_session
      = (Proceed ''hello'', example_session)"
    by blast
  from a b e f show ?thesis by (intro conjI)
qed

text \<open>
  Claim C3, as stated: every text \<^verbatim>\<open>/login s\<close> logs in when \<open>s\<close> is the secret and is
  answered 401 otherwise. With two arguments the callback raises TypeError; and the
  attempt is compared in lower case, so a secret with an upper-case letter is refused.
\<close>

theorem login_counterexample:
  "''a b'' \<noteq> WHISPER_SECRET example_config
   \<and> new_memory example_config example_env ''/login a b'' example_state
       = (Inl TypeError, example_state)
   \<and> new_memory (example_config\<lparr>WHISPER_SECRET := ''OpenSesame''\<rparr>) example_env
         ''/login OpenSesame'' example_state
       = (Inr (Status ''Wrong secret'' 401), example_state)"
  by code_simp

text \<open>
  Claim C3, amended: for a text \<^verbatim>\<open>/login s\<close> that passes validation, where \<open>s\<close> is a
  single token (not empty, without whitespace, its lower-case form without an occurrence
  of \<^verbatim>\<open>/login\<close>): when the lower-case form of \<open>s\<close> is the configured secret, the
  \<^verbatim>\<open>deity\<close> flag of the session becomes true, the greeting is flashed and the answer
  is the redirect to the listing; otherwise the answer is 401 with \<open>LOGIN_FAIL\<close> and
  the state is unchanged. For every \<open>s'\<close> whatsoever, the text \<^verbatim>\<open>/login s'\<close> leaves
  the stored memories as they were.
\<close>

theorem login_single_token:
  assumes token: "s \<noteq> []" "\<forall>c \<in> set s. \<not> isspace c"
    and single: "replace_empty ''/login'' (lower s) = lower s"
    and valid: "validate cfg (memories st) (''/login '' @ s) = None"
  shows "new_memory cfg e (''/login '' @ s) st =
           (if lower s = WHISPER_SECRET cfg
            then (Inr (Redirect ''show_memories''),
                  st\<lparr>sess := (sess st)\<lparr>deity := Some True,
                                         flashes := flashes (sess st) @ [DEITY_GREET cfg]\<rparr>\<rparr>)
            else (Inr (Status (LOGIN_FAIL cfg) 401), st))
       \<and> (\<forall>s'. memories (snd (new_memory cfg e (''/login '' @ s') st)) = memories st)"
proof -
  note t = login_token_text [OF token]
  have ls: "lower s \<noteq> []" "\<forall>c \<in> set (lower s). \<not> isspace c"
    using token by (auto simp: lower_def isspace_lower_char)
  have valid': "validate cfg (memories st) (strip (''/login '' @ s)) = None"
    unfolding t(1) by (rule valid)
  have match: "re_match (CHR ''/'' # NAME SlashLogin) (strip (lower (strip (''/login '' @ s)))) \<noteq> None"
    unfolding t by (simp add: re_match_None startswith_def)
  have args: "parse_args ''/login'' (strip (lower (strip (''/login '' @ s)))) = [lower s]"
    unfolding t by (rule parse_args_login_token [OF ls single])
  from login_one_argument [OF valid' match args, of e] login_no_memory [of cfg e _ st]
  show ?thesis by blast
qed

theorem login_single_token_witness:
  "new_memory example_config example_env ''/login opensesame'' example_state
     = (Inr (Redirect ''show_memories''),
        example_state\<lparr>sess := \<lparr>deity = Some True, flashes = [''Welcome, deity'']\<rparr>\<rparr>)
   \<and> new_memory example_config example_env ''/login sesame'' example_state
     = (Inr (Status ''Wrong secret'' 401), example_state)"
proof -
  have a1: "''opensesame'' \<noteq> []" and b1: "''sesame'' \<noteq> []" by simp_all
  have a2: "\<forall>c \<in> set ''opensesame''. \<not> isspace c" by (simp add: isspace_def)
  have b2: "\<forall>c \<in> set ''sesame''. \<not> isspace c" by (simp add: isspace_def)
  have a3: "replace_empty ''/login'' (lower ''opensesame'') = lower ''opensesame''" by code_simp
  have b3: "replace_empty ''/login'' (lower ''sesame'') = lower ''sesame''" by code_simp
  have a4: "validate example_config (memories example_state) (''/login '' @ ''opensesame'') = None"
    by code_simp
  have b4: "validate example_config (memories example_state) (''/login '' @ ''sesame'') = None"
    by code_simp
  have a5: "lower ''opensesame'' = WHISPER_SECRET example_config" by code_simp
  have b5: "lower ''sesame'' \<noteq> WHISPER_SECRET example_config" by code_simp
  from login_single_token [OF a1 a2 a3 a4, of example_env] a5
  have "new_memory example_config example_env (''/login '' @ ''opensesame'') example_state =
      (Inr (Redirect ''show_memories''),
       example_state\<lparr>sess := (sess example_state)\<lparr>deity := Some True,
          flashes := flashes (sess example_state) @ [DEITY_GREET example_config]\<rparr>\<rparr>)"
    by simp
  then have a: "new_memory example_config example_env ''/login opensesame'' example_state
     = (Inr (Redirect ''show_memories''),
        example_state\<lparr>sess := \<lparr>deity = Some True, flashes = [''Welcome, deity'']\<rparr>\<rparr>)"
    by (simp add: example_state_def example_session_def example_config_def)
  from login_single_token [OF b1 b2 b3 b4, of example_env] b5
  have "new_memory example_config example_env (''/login '' @ ''sesame'') example_state =
      (Inr (Status (LOGIN_FAIL example_config) 401), example_state)"
    by simp
  then have b: "new_memory example_config example_env ''/login sesame'' example_state
     = (Inr (Status ''Wrong secret'' 401), example_state)"
    by (simp add: example_config_def)
  from a b show ?thesis by (rule conjI)
qed

text \<open>
  Claim C6. A text that starts with \<^verbatim>\<open>/\<close> and that no command matches is answered
  400 and leaves the state unchanged; when it passes validation, which comes first, the
  message is \<^verbatim>\<open>Invalid Slash Command\<close>.
\<close>

theorem unmatched_slash_rejected:
  assumes slash: "startswith (strip form_text) ''/''"
    and nomatch: "\<forall>c \<in> set slash_commands.
                    re_match (CHR ''/'' # NAME c) (strip (lower (strip form_text))) = None"
  shows "(validate cfg (memories st) (strip form_text) = None \<longrightarrow>
            new_memory cfg e form_text st = (Inr (Status ''Invalid Slash Command'' 400), st))
       \<and> (\<exists>msg. new_memory cfg e form_text st = (Inr (Status msg 400), st))"
proof -
  from slash obtain r where r: "strip form_text = CHR ''/'' # r"
    by (auto simp: startswith_iff)
  have guard: "store e (strip form_text) (strip form_text) st =
      (Inr (Status ''Invalid Slash Command'' 400), st)"
    by (simp add: store_def r)
  have a: "new_memory cfg e form_text st = (Inr (Status ''Invalid Slash Command'' 400), st)"
    if "validate cfg (memories st) (strip form_text) = None"
    using guard by (simp add: new_memory_valid [OF that] slash_loop_no_match [OF nomatch])
  have b: "\<exists>msg. new_memory cfg e form_text st = (Inr (Status msg 400), st)"
  proof (cases "validate cfg (memories st) (strip form_text)")
    case None
    with a show ?thesis by blast
  next
    case (Some payload)
    then obtain msg where "payload = Status msg 400"
      by (auto simp: validate_def split: if_splits)
    with Some show ?thesis by (simp add: new_memory_invalid)
  qed
  from a b show ?thesis by blast
qed

theorem unmatched_slash_rejected_witness:
  "new_memory example_config example_env ''/bogus hello'' example_state
     = (Inr (Status ''Invalid Slash Command'' 400), example_state)"
proof -
  have h1: "startswith (strip ''/bogus hello'') ''/''" by code_simp
  have h2: "\<forall>c \<in> set slash_commands.
              re_match (CHR ''/'' # NAME c) (strip (lower (strip ''/bogus hello''))) = None"
    by code_simp
  have h3: "validate example_config (memories example_state) (strip ''/bogus hello'') = None"
    by code_simp
  from unmatched_slash_rejected [OF h1 h2, of example_config example_state example_env] h3
  show ?thesis by blast
qed

text \<open>
  Claim C9. When the text passes validation and the callback of the command that
  matches it raises an exception, \<open>attempt\<close> hands that exception on and it leaves
  \<open>new_memory\<close> as it is, not turned into a response; the state, repository and session,
  is unchanged. The witness is \<^verbatim>\<open>/login\<close> without an argument: TypeError.
\<close>

theorem callback_failure_propagates:
  assumes valid: "validate cfg (memories st) (strip form_text) = None"
    and match: "re_match (CHR ''/'' # NAME cmd) (strip (lower (strip form_text))) \<noteq> None"
    and fails: "fst (callback cmd cfg e
                       (parse_args (CHR ''/'' # NAME cmd) (strip (lower (strip form_text))))
                       (sess st)) = Inl err"
  shows "attempt cmd cfg e (strip form_text) (sess st) = (Some (Inl err), sess st)
       \<and> new_memory cfg e form_text st = (Inl err, st)"
proof -
  obtain s' where cb: "callback cmd cfg e
      (parse_args (CHR ''/'' # NAME cmd) (strip (lower (strip form_text)))) (sess st) = (Inl err, s')"
    using fails by (metis prod.collapse)
  from callback_error_session [OF this] have s': "s' = sess st" .
  have "attempt cmd cfg e (strip form_text) (sess st) = (Some (Inl err), sess st)"
    using cb s' by (simp add: attempt_match [OF match])
  moreover have "new_memory cfg e form_text st = (Inl err, st)"
    using cb s' by (simp add: new_memory_valid [OF valid] slash_loop_commands [OF match])
  ultimately show ?thesis by blast
qed

theorem callback_failure_propagates_witness:
  "attempt SlashLogin example_config example_env (strip ''/login'') (sess example_state)
     = (Some (Inl TypeError), sess example_state)
   \<and> new_memory example_config example_env ''/login'' example_state
     = (Inl TypeError, example_state)"
proof -
  have h1: "validate example_config (memories example_state) (strip ''/login'') = None"
    by code_simp
  have h2: "re_match (CHR ''/'' # NAME SlashLogin) (strip (lower (strip ''/login''))) \<noteq> None"
    by code_simp
  have h3: "fst (callback SlashLogin example_config example_env
                   (parse_args (CHR ''/'' # NAME SlashLogin) (strip (lower (strip ''/login''))))
                   (sess example_state)) = Inl TypeError"
    by code_simp
  from callback_failure_propagates [OF h1 h2 h3] show ?thesis .
qed

text \<open>
  Claim C10. The text that reaches the slash guard is never empty: it is the validated
  text or the text of a command, and every text a callback returns for a memory is not
  empty. So \<^verbatim>\<open>memory_text[0]\<close> does not fail: no request ends in IndexError.
\<close>

theorem guard_index_never_faults:
  "(\<forall>memory_text s'.
      validate cfg (memories st) (strip form_text) = None
      \<and> slash_loop slash_commands cfg e (strip form_text) (sess st) = (Proceed memory_text, s')
      \<longrightarrow> memory_text \<noteq> [])
   \<and> (\<forall>cmd args s v s'. callback cmd cfg e args s = (Inr (CreateMemory v), s') \<longrightarrow> v \<noteq> [])
   \<and> fst (new_memory cfg e form_text st) \<noteq> Inl IndexError"
proof (intro conjI allI impI)
  fix memory_text s'
  assume "validate cfg (memories st) (strip form_text) = None
      \<and> slash_loop slash_commands cfg e (strip form_text) (sess st) = (Proceed memory_text, s')"
  with slash_loop_Proceed validate_None_nonempty show "memory_text \<noteq> []" by metis
next
  fix cmd args s v s'
  assume "callback cmd cfg e args s = (Inr (CreateMemory v), s')"
  from callback_create_nonempty [OF this] show "v \<noteq> []" by simp
next
  show "fst (new_memory cfg e form_text st) \<noteq> Inl IndexError"
  proof (cases "validate cfg (memories st) (strip form_text)")
    case (Some payload)
    then show ?thesis by (simp add: new_memory_invalid)
  next
    case None
    obtain d s' where loop: "slash_loop slash_commands cfg e (strip form_text) (sess st) = (d, s')"
      by (cases "slash_loop slash_commands cfg e (strip form_text) (sess st)")
    show ?thesis
    proof (cases d)
      case (Proceed t)
      with loop slash_loop_Proceed validate_None_nonempty [OF None] have "t \<noteq> []" by metis
      from store_no_IndexError [OF this] show ?thesis
        by (simp add: new_memory_valid [OF None] loop Proceed)
    next
      case (Return v)
      then show ?thesis by (simp add: new_memory_valid [OF None] loop)
    next
      case (Raise err)
      with loop slash_loop_no_IndexError have "err \<noteq> IndexError" by metis
      then show ?thesis by (simp add: new_memory_valid [OF None] loop Raise)
    qed
  qed
qed

theorem guard_index_never_faults_witness:
  "validate example_config (memories example_state) (strip ''/danbooru goo_girl'') = None
   \<and> slash_loop slash_commands example_config example_posts_env (strip ''/danbooru goo_girl'')
        (sess example_state)
      = (Proceed ''http://danbooru.donmai.us/data/b.png'', example_session)
   \<and> ''http://danbooru.donmai.us/data/b.png'' \<noteq> []
   \<and> fst (new_memory example_config example_posts_env ''/danbooru goo_girl'' example_state)
      \<noteq> Inl IndexError"
proof -
  have h1: "validate example_config (memories example_state) (strip ''/danbooru goo_girl'') = None"
    by code_simp
  have h2: "slash_loop slash_commands example_config example_posts_env
              (strip ''/danbooru goo_girl'') (sess example_state)
      = (Proceed ''http://danbooru.donmai.us/data/b.png'', example_session)"
    by code_simp
  note t = guard_index_never_faults
    [of example_config example_state "''/danbooru goo_girl''" example_posts_env]
  from t h1 h2 have h3: "''http://danbooru.donmai.us/data/b.png'' \<noteq> []"
    by blast
  from t have h4:
    "fst (new_memory example_config example_posts_env ''/danbooru goo_girl'' example_state)
      \<noteq> Inl IndexError"
    by blast
  from h1 h2 h3 h4 show ?thesis by (intro conjI)
qed




end
